theory Spec2Isabelle
  imports Complex_Main "HOL-Library.List_Lexorder" "HOL-Library.Char_ord" "HOL-Library.Multiset"
begin

section \<open>Strings and settled promises\<close>

text \<open>
  JavaScript strings are modelled as \<open>string\<close>; the addresses, URLs and keys handled
  here are ASCII, where the order of \<open>Array.prototype.sort\<close> (by UTF-16 code unit)
  is the lexicographic order of the characters' codes, a proper prefix first.
  Timestamps (\<open>Date.now()\<close>, integral milliseconds) are \<open>int\<close>.
\<close>

text \<open>\<open>String.prototype.toLowerCase\<close>, on the ASCII letters.\<close>

definition lowerChar :: "char \<Rightarrow> char" where
  "lowerChar c =
     (case map_of (zip ''ABCDEFGHIJKLMNOPQRSTUVWXYZ'' ''abcdefghijklmnopqrstuvwxyz'') c of
        Some l \<Rightarrow> l
      | None \<Rightarrow> c)"

definition toLowerCase :: "string \<Rightarrow> string" where
  "toLowerCase s = map lowerChar s"

text \<open>\<open>Array.prototype.join\<close> with a separator.\<close>

fun join :: "string \<Rightarrow> string list \<Rightarrow> string" where
  "join sep [] = []"
| "join sep [x] = x"
| "join sep (x # y # ys) = x @ sep @ join sep (y # ys)"

text \<open>
  \<open>JSON.stringify\<close> of a string: the text between double quotes, with the quote, the
  backslash and the control characters escaped.
\<close>

definition hexDigit :: "nat \<Rightarrow> char" where
  "hexDigit n = ''0123456789abcdef'' ! (n mod 16)"

definition escapeChar :: "char \<Rightarrow> string" where
  "escapeChar c =
     (if c = CHR 0x22 then [CHR 0x5C, CHR 0x22]
      else if c = CHR 0x5C then [CHR 0x5C, CHR 0x5C]
      else if c = CHR 0x08 then [CHR 0x5C, CHR ''b'']
      else if c = CHR 0x0C then [CHR 0x5C, CHR ''f'']
      else if c = CHR 0x0A then [CHR 0x5C, CHR ''n'']
      else if c = CHR 0x0D then [CHR 0x5C, CHR ''r'']
      else if c = CHR 0x09 then [CHR 0x5C, CHR ''t'']
      else if (of_char c :: nat) < 32
        then [CHR 0x5C, CHR ''u'', CHR ''0'', CHR ''0'',
              hexDigit (of_char c div 16), hexDigit (of_char c)]
      else [c])"

definition JSON_stringify :: "string \<Rightarrow> string" where
  "JSON_stringify s = [CHR 0x22] @ concat (map escapeChar s) @ [CHR 0x22]"

text \<open>
  A promise is named by a number; what it settles to is a value of \<open>error + 'a\<close>:
  \<open>Inl\<close> is a rejection (a thrown \<open>Error\<close> with its message), \<open>Inr\<close> a resolution.
\<close>

datatype error = Error string

type_synonym 'a settled = "error + 'a"

section \<open>The rate limiter (api-rate-limiter)\<close>

record PendingRequest =
  promise :: nat
  timestamp :: int

record RateLimitConfig =
  maxRequests :: nat
  windowMs :: int
  cooldownMs :: int
  cfg_hasApiKey :: bool

text \<open>
  The parts of \<open>RequestInit\<close> the limiter reads (\<open>requestMethod\<close> is its field
  \<open>method\<close>). The environment is the value of
  \<open>process.env.NEXT_PUBLIC_COINGECKO_API_KEY\<close>, \<open>None\<close> when it is not set.
\<close>

record RequestInit =
  requestMethod :: "string option"
  headers :: "(string \<times> string) list"
  body :: "string option"

type_synonym env = "string option"

text \<open>\<open>!!process.env.NEXT_PUBLIC_COINGECKO_API_KEY\<close>: unset and the empty string are false.\<close>

definition hasApiKey :: "env \<Rightarrow> bool" where
  "hasApiKey e = (case e of None \<Rightarrow> False | Some k \<Rightarrow> k \<noteq> [])"

definition getMaxRequests :: "env \<Rightarrow> nat" where
  "getMaxRequests e = (if hasApiKey e then 100 else 30)"

definition getCooldownMs :: "env \<Rightarrow> int" where
  "getCooldownMs e = (if hasApiKey e then 1000 else 2000)"

definition config :: "env \<Rightarrow> RateLimitConfig" where
  "config e =
     \<lparr>maxRequests = getMaxRequests e, windowMs = 60 * 1000,
      cooldownMs = getCooldownMs e, cfg_hasApiKey = hasApiKey e\<rparr>"

text \<open>
  The limiter runs on an event loop. The model keeps the limiter's fields together with
  the part of the runtime they depend on: the clock, the timers set by \<open>setTimeout\<close>,
  the network calls issued by \<open>fetch\<close>, and for every caller the promise it was handed.
  A timer either clears the cooldown flag (the callback of \<open>recordRequest\<close>) or resumes
  a caller suspended in \<open>makeRequest\<close> (with the locals of its frame).
\<close>

datatype timer_action =
    ClearCooldown
  | Resume nat string "RequestInit option"

record timer =
  timer_id :: nat
  due :: int
  action :: timer_action

record 'v limiter =
  pendingRequests :: "string \<rightharpoonup> PendingRequest"
  requestHistory :: "int list"
  isCooldown :: bool
  cooldownTimeout :: "nat option"
  clock :: int
  timers :: "timer list"
  nextTimer :: nat
  fetches :: "(nat \<times> string \<times> RequestInit option) list"
  nextPromise :: nat
  awaiting :: "(nat \<times> nat \<times> string) list"
  handed :: "(nat \<times> nat) list"
  settledAs :: "nat \<rightharpoonup> 'v settled"

definition initial :: "'v limiter" where
  "initial =
     \<lparr>pendingRequests = Map.empty, requestHistory = [], isCooldown = False,
      cooldownTimeout = None, clock = 0, timers = [], nextTimer = 0, fetches = [],
      nextPromise = 0, awaiting = [], handed = [], settledAs = Map.empty\<rparr>"

definition setTimeout :: "timer_action \<Rightarrow> int \<Rightarrow> 'v limiter \<Rightarrow> nat \<times> 'v limiter" where
  "setTimeout a delay w =
     (nextTimer w,
      w\<lparr>timers := timers w @ [\<lparr>timer_id = nextTimer w, due = clock w + delay, action = a\<rparr>],
        nextTimer := Suc (nextTimer w)\<rparr>)"

definition clearTimeout :: "nat \<Rightarrow> 'v limiter \<Rightarrow> 'v limiter" where
  "clearTimeout tid w = w\<lparr>timers := filter (\<lambda>t. timer_id t \<noteq> tid) (timers w)\<rparr>"

definition cleanupRequestHistory :: "RateLimitConfig \<Rightarrow> 'v limiter \<Rightarrow> 'v limiter" where
  "cleanupRequestHistory cfg w =
     (let cutoff = clock w - windowMs cfg
      in w\<lparr>requestHistory := filter (\<lambda>timestamp. timestamp > cutoff) (requestHistory w)\<rparr>)"

definition canMakeRequest :: "RateLimitConfig \<Rightarrow> 'v limiter \<Rightarrow> bool \<times> 'v limiter" where
  "canMakeRequest cfg w =
     (if isCooldown w then (False, w)
      else let w' = cleanupRequestHistory cfg w
           in (length (requestHistory w') < maxRequests cfg, w'))"

definition recordRequest :: "RateLimitConfig \<Rightarrow> 'v limiter \<Rightarrow> 'v limiter" where
  "recordRequest cfg w =
     (let w1 = w\<lparr>requestHistory := requestHistory w @ [clock w], isCooldown := True\<rparr>;
          w2 = (case cooldownTimeout w1 of Some tid \<Rightarrow> clearTimeout tid w1 | None \<Rightarrow> w1);
          (tid, w3) = setTimeout ClearCooldown (cooldownMs cfg) w2
      in w3\<lparr>cooldownTimeout := Some tid\<rparr>)"

definition generateRequestKey :: "string \<Rightarrow> RequestInit option \<Rightarrow> string" where
  "generateRequestKey url options =
     (let meth = (case options of
                      None \<Rightarrow> ''GET''
                    | Some opt \<Rightarrow> (case requestMethod opt of
                                    None \<Rightarrow> ''GET''
                                  | Some m \<Rightarrow> if m = [] then ''GET'' else m));
          body = (case options of
                    None \<Rightarrow> []
                  | Some opt \<Rightarrow> (case body opt of
                                  None \<Rightarrow> []
                                | Some b \<Rightarrow> if b = [] then [] else JSON_stringify b))
      in meth @ '':'' @ url @ '':'' @ body)"

text \<open>
  \<open>executeRequest\<close> up to its first suspension: it records the request and calls
  \<open>fetch\<close>. The promise it returns is named by the number returned here; what that
  promise settles to (the parsed body, or the error thrown for a failed call or a
  response that is not ok) arrives later with the event \<open>Settle\<close>.
\<close>

definition executeRequest :: "RateLimitConfig \<Rightarrow> string \<Rightarrow> RequestInit option \<Rightarrow> 'v limiter \<Rightarrow> nat \<times> 'v limiter" where
  "executeRequest cfg url options w =
     (let w1 = recordRequest cfg w
      in (nextPromise w1,
          w1\<lparr>fetches := fetches w1 @ [(nextPromise w1, url, options)],
             nextPromise := Suc (nextPromise w1)\<rparr>))"

text \<open>
  \<open>makeRequest\<close> from the creation of the request on (after the rate-limit check and,
  for a suspended caller, after the wait): the request is executed, registered as
  pending under the key computed at the call, and the caller awaits it.
\<close>

definition makeRequest_proceed :: "RateLimitConfig \<Rightarrow> nat \<Rightarrow> string \<Rightarrow> RequestInit option \<Rightarrow> 'v limiter \<Rightarrow> 'v limiter" where
  "makeRequest_proceed cfg caller url options w =
     (let requestKey = generateRequestKey url options;
          (requestPromise, w1) = executeRequest cfg url options w
      in w1\<lparr>pendingRequests := (pendingRequests w1)
                (requestKey \<mapsto> \<lparr>promise = requestPromise, timestamp = clock w1\<rparr>),
            awaiting := awaiting w1 @ [(caller, requestPromise, requestKey)],
            handed := handed w1 @ [(caller, requestPromise)]\<rparr>)"

text \<open>
  \<open>makeRequest\<close> from the call to its first suspension: a pending request under the
  same key is returned as it is; otherwise a caller that may not make a request sets a
  timer of \<open>cooldownMs\<close> and is suspended until it fires, and one that may proceeds at
  once.
\<close>

definition makeRequest :: "RateLimitConfig \<Rightarrow> nat \<Rightarrow> string \<Rightarrow> RequestInit option \<Rightarrow> 'v limiter \<Rightarrow> 'v limiter" where
  "makeRequest cfg caller url options w =
     (let requestKey = generateRequestKey url options
      in case pendingRequests w requestKey of
           Some pendingRequest \<Rightarrow> w\<lparr>handed := handed w @ [(caller, promise pendingRequest)]\<rparr>
         | None \<Rightarrow>
             (case canMakeRequest cfg w of
                (False, w1) \<Rightarrow> snd (setTimeout (Resume caller url options) (cooldownMs cfg) w1)
              | (True, w1) \<Rightarrow> makeRequest_proceed cfg caller url options w1))"

text \<open>
  When the request promise settles, the \<open>finally\<close> block of the frame that created it
  deletes the entry under that frame's key, whichever request is registered there.
\<close>

definition makeRequest_finally :: "nat \<Rightarrow> 'v limiter \<Rightarrow> 'v limiter" where
  "makeRequest_finally p w =
     (let keys = map (\<lambda>(c, q, k). k) (filter (\<lambda>(c, q, k). q = p) (awaiting w))
      in w\<lparr>pendingRequests := fold (\<lambda>k m. m(k := None)) keys (pendingRequests w),
           awaiting := filter (\<lambda>(c, q, k). q \<noteq> p) (awaiting w)\<rparr>)"

text \<open>
  The events of the loop: a caller calls \<open>makeRequest\<close>; time passes; a timer that is due
  fires (a timer may fire late, never early); a network call settles. An event that
  cannot happen in the state gives \<open>None\<close>.
\<close>

datatype 'v event =
    Call nat string "RequestInit option"
  | Tick int
  | Fire nat
  | Settle nat "'v settled"

definition fire :: "RateLimitConfig \<Rightarrow> timer \<Rightarrow> 'v limiter \<Rightarrow> 'v limiter" where
  "fire cfg t w =
     (let w1 = w\<lparr>timers := filter (\<lambda>u. timer_id u \<noteq> timer_id t) (timers w)\<rparr>
      in case action t of
           ClearCooldown \<Rightarrow> w1\<lparr>isCooldown := False\<rparr>
         | Resume caller url options \<Rightarrow> makeRequest_proceed cfg caller url options w1)"

fun step :: "RateLimitConfig \<Rightarrow> 'v event \<Rightarrow> 'v limiter \<Rightarrow> 'v limiter option" where
  "step cfg (Call caller url options) w = Some (makeRequest cfg caller url options w)"
| "step cfg (Tick t) w = (if clock w \<le> t then Some (w\<lparr>clock := t\<rparr>) else None)"
| "step cfg (Fire tid) w =
     (case filter (\<lambda>t. timer_id t = tid) (timers w) of
        [] \<Rightarrow> None
      | t # _ \<Rightarrow> if due t \<le> clock w then Some (fire cfg t w) else None)"
| "step cfg (Settle p r) w =
     (if p \<in> set (map fst (fetches w)) \<and> settledAs w p = None
      then Some (makeRequest_finally p (w\<lparr>settledAs := (settledAs w)(p \<mapsto> r)\<rparr>))
      else None)"

fun run :: "RateLimitConfig \<Rightarrow> 'v event list \<Rightarrow> 'v limiter \<Rightarrow> 'v limiter option" where
  "run cfg [] w = Some w"
| "run cfg (e # es) w = (case step cfg e w of None \<Rightarrow> None | Some w' \<Rightarrow> run cfg es w')"

text \<open>The number of recorded timestamps newer than \<open>now - windowMs\<close>.\<close>

definition inWindow :: "RateLimitConfig \<Rightarrow> 'v limiter \<Rightarrow> nat" where
  "inWindow cfg w = length (filter (\<lambda>timestamp. timestamp > clock w - windowMs cfg) (requestHistory w))"

text \<open>The event resumes a suspended caller: it fires a \<open>Resume\<close> timer.\<close>

definition resumes :: "'v event \<Rightarrow> 'v limiter \<Rightarrow> bool" where
  "resumes e w =
     (case e of
        Fire tid \<Rightarrow> (case filter (\<lambda>t. timer_id t = tid) (timers w) of
                      [] \<Rightarrow> False
                    | t # _ \<Rightarrow> action t \<noteq> ClearCooldown)
      | _ \<Rightarrow> False)"

fun no_resume :: "RateLimitConfig \<Rightarrow> 'v event list \<Rightarrow> 'v limiter \<Rightarrow> bool" where
  "no_resume cfg [] w = True"
| "no_resume cfg (e # es) w =
     (\<not> resumes e w \<and> (case step cfg e w of None \<Rightarrow> True | Some w' \<Rightarrow> no_resume cfg es w'))"

text \<open>The network calls issued so far whose request has the given key.\<close>

definition callsFor :: "string \<Rightarrow> 'v limiter \<Rightarrow> nat list" where
  "callsFor key w = map fst (filter (\<lambda>(p, url, options). generateRequestKey url options = key) (fetches w))"

text \<open>
  Traces of events. In \<open>burst n\<close> one caller is admitted at time 0 and \<open>n\<close> more, each with
  a URL of its own, arrive during its cooldown; at time 2000 the cooldown timer fires and
  then the timers of the suspended callers. In \<open>calm\<close> no caller is ever suspended. In
  \<open>duplicateCalls\<close> two callers issue the same request during a cooldown.
\<close>

definition waiting :: "nat \<Rightarrow> (nat \<times> string) list" where
  "waiting n = map (\<lambda>i. (i, ''/n/'' @ replicate i CHR ''x'')) [1..<Suc n]"

definition burst :: "nat \<Rightarrow> string event list" where
  "burst n =
     Call 0 ''/first'' None # map (\<lambda>(c, u). Call c u None) (waiting n) @
     Tick 2000 # Fire 0 # map Fire (map fst (waiting n))"

definition calm :: "string event list" where
  "calm = [Call 0 ''/first'' None, Call 1 ''/first'' None, Tick 2000, Fire 0,
           Settle 0 (Inr ''{}''), Call 2 ''/second'' None]"

definition duplicateCalls :: "string event list" where
  "duplicateCalls = [Call 0 ''/a'' None, Call 1 ''/b'' None, Call 2 ''/b'' None, Tick 2000,
                     Fire 0, Fire 1, Fire 2, Settle 1 (Inr ''first''), Settle 2 (Inr ''second'')]"

section \<open>The metadata cache (token-metadata-cache)\<close>

record TokenMetadata =
  address :: string
  symbol :: string
  name :: string
  decimals :: int
  logoUrl :: "string option"
  isVerified :: bool
  isTestnet :: "bool option"
  coingeckoId :: "string option"
  marketCap :: "real option"
  price :: "real option"
  priceChange24h :: "real option"
  volume24h :: "real option"
  description :: "string option"

record CacheEntry =
  data :: TokenMetadata
  timestamp :: int
  expiresAt :: int

record BatchRequest =
  addresses :: "string list"
  promise :: nat
  timestamp :: int

text \<open>The body \<open>{ tokens: TokenMetadata[] }\<close> of the batch endpoint; \<open>tokens\<close> may be missing.\<close>

record batch_response =
  tokens :: "TokenMetadata list option"

text \<open>
  The fields of \<open>TokenMetadataCache\<close>, with the calls of \<open>fetchBatchFromAPI\<close> made so
  far: the promise each returned and the addresses it sent.
\<close>

record TokenMetadataCache =
  cache :: "string \<rightharpoonup> CacheEntry"
  pendingBatchRequests :: "string \<rightharpoonup> BatchRequest"
  batchFetches :: "(nat \<times> string list) list"
  nextBatch :: nat

definition CACHE_DURATION :: int where
  "CACHE_DURATION = 10 * 60 * 1000"

definition BATCH_TIMEOUT :: int where
  "BATCH_TIMEOUT = 5 * 1000"


definition isCacheValid :: "int \<Rightarrow> CacheEntry \<Rightarrow> bool" where
  "isCacheValid now entry = (now < expiresAt entry)"

text \<open>
  \<open>generateBatchKey\<close> sorts the array it is given in place: the result is the array as
  the call leaves it, and the key.
\<close>

definition generateBatchKey :: "string list \<Rightarrow> string list \<times> string" where
  "generateBatchKey addrs = (sort addrs, join '','' (sort addrs))"

definition cacheToken :: "int \<Rightarrow> TokenMetadata \<Rightarrow> TokenMetadataCache \<Rightarrow> TokenMetadataCache" where
  "cacheToken now token s =
     (let cacheKey = toLowerCase (address token)
      in s\<lparr>cache := (cache s)
             (cacheKey \<mapsto> \<lparr>data = token, CacheEntry.timestamp = now,
                           expiresAt = now + CACHE_DURATION\<rparr>)\<rparr>)"

text \<open>
  \<open>fetchBatchFromAPI\<close>: the call issues one rate-limited request for the addresses and
  returns a promise; when the request settles, the promise resolves with the tokens of
  the response, or with the empty list when they are missing or the request threw.
\<close>

definition fetchBatchFromAPI :: "string list \<Rightarrow> TokenMetadataCache \<Rightarrow> nat \<times> TokenMetadataCache" where
  "fetchBatchFromAPI addrs s =
     (nextBatch s,
      s\<lparr>batchFetches := batchFetches s @ [(nextBatch s, addrs)], nextBatch := Suc (nextBatch s)\<rparr>)"

definition fetchBatchFromAPI_settle :: "batch_response settled \<Rightarrow> TokenMetadata list settled" where
  "fetchBatchFromAPI_settle r =
     (case r of
        Inl e \<Rightarrow> Inr []
      | Inr response \<Rightarrow> Inr (case tokens response of None \<Rightarrow> [] | Some ts \<Rightarrow> ts))"

text \<open>The loop of \<open>getBatchTokenMetadata\<close> that sorts the addresses into cached and uncached.\<close>

fun partition_cached :: "int \<Rightarrow> (string \<rightharpoonup> CacheEntry) \<Rightarrow> string list \<Rightarrow>
    string list \<times> TokenMetadata list \<Rightarrow> string list \<times> TokenMetadata list" where
  "partition_cached now c [] (uncachedAddresses, cachedResults) = (uncachedAddresses, cachedResults)"
| "partition_cached now c (a # as) (uncachedAddresses, cachedResults) =
     (case c (toLowerCase a) of
        None \<Rightarrow> partition_cached now c as (uncachedAddresses @ [a], cachedResults)
      | Some cached \<Rightarrow>
          if isCacheValid now cached
          then partition_cached now c as (uncachedAddresses, cachedResults @ [data cached])
          else partition_cached now c as (uncachedAddresses @ [a], cachedResults))"

text \<open>
  What a call of \<open>getBatchTokenMetadata\<close> has done when it first returns control: it has
  returned a list; or it has returned the promise of a pending batch; or it has issued a
  fetch and awaits its promise, with the batch key and the cached results in its frame.
\<close>

datatype batch_call =
    Returned "TokenMetadata list"
  | Joined nat
  | Awaiting nat string "TokenMetadata list"

text \<open>
  \<open>getBatchTokenMetadata\<close> up to its first suspension. The second component is the
  caller's array as the call leaves it.
\<close>

definition getBatchTokenMetadata :: "int \<Rightarrow> string list \<Rightarrow> TokenMetadataCache \<Rightarrow>
    batch_call \<times> string list \<times> TokenMetadataCache" where
  "getBatchTokenMetadata now addrs s =
     (if length addrs = 0 then (Returned [], addrs, s)
      else
        let (addrs', batchKey) = generateBatchKey addrs;
            reusable = (case pendingBatchRequests s batchKey of
                          None \<Rightarrow> None
                        | Some pendingBatch \<Rightarrow>
                            if now - BatchRequest.timestamp pendingBatch < BATCH_TIMEOUT
                            then Some (BatchRequest.promise pendingBatch) else None)
        in case reusable of
             Some p \<Rightarrow> (Joined p, addrs', s)
           | None \<Rightarrow>
               let (uncachedAddresses, cachedResults) = partition_cached now (cache s) addrs' ([], [])
               in if length uncachedAddresses = 0 then (Returned cachedResults, addrs', s)
                  else
                    let (batchPromise, s1) = fetchBatchFromAPI uncachedAddresses s;
                        s2 = s1\<lparr>pendingBatchRequests := (pendingBatchRequests s1)
                               (batchKey \<mapsto> \<lparr>addresses = uncachedAddresses,
                                             promise = batchPromise, timestamp = now\<rparr>)\<rparr>
                    in (Awaiting batchPromise batchKey cachedResults, addrs', s2))"

text \<open>
  The rest of a call that awaited its batch promise, run when the promise has settled:
  the results are cached and appended to the cached ones; the \<open>finally\<close> block deletes the
  pending entry and a rejection is passed on.
\<close>

definition getBatchTokenMetadata_resume :: "int \<Rightarrow> TokenMetadata list settled \<Rightarrow> string \<Rightarrow>
    TokenMetadata list \<Rightarrow> TokenMetadataCache \<Rightarrow> TokenMetadata list settled \<times> TokenMetadataCache" where
  "getBatchTokenMetadata_resume now settledBatch batchKey cachedResults s =
     (case settledBatch of
        Inl e \<Rightarrow> (Inl e, s\<lparr>pendingBatchRequests := (pendingBatchRequests s)(batchKey := None)\<rparr>)
      | Inr apiResults \<Rightarrow>
          (let s1 = fold (cacheToken now) apiResults s
           in (Inr (cachedResults @ apiResults),
               s1\<lparr>pendingBatchRequests := (pendingBatchRequests s1)(batchKey := None)\<rparr>)))"

text \<open>
  What the promise returned by a call of \<open>getBatchTokenMetadata\<close> settles to, given what
  the batch promise it returned or awaits has settled to.
\<close>

definition getBatchTokenMetadata_result :: "int \<Rightarrow> batch_call \<Rightarrow> TokenMetadata list settled \<Rightarrow>
    TokenMetadataCache \<Rightarrow> TokenMetadata list settled \<times> TokenMetadataCache" where
  "getBatchTokenMetadata_result now call settledBatch s =
     (case call of
        Returned results \<Rightarrow> (Inr results, s)
      | Joined p \<Rightarrow> (settledBatch, s)
      | Awaiting p batchKey cachedResults \<Rightarrow>
          getBatchTokenMetadata_resume now settledBatch batchKey cachedResults s)"

text \<open>
  \<open>getTokenMetadata\<close> up to its first suspension: a valid entry is returned as it is,
  otherwise the batch form is called on the one-element array.
\<close>

datatype single_call =
    Hit TokenMetadata
  | Delegated batch_call

definition getTokenMetadata :: "int \<Rightarrow> string \<Rightarrow> TokenMetadataCache \<Rightarrow> single_call \<times> TokenMetadataCache" where
  "getTokenMetadata now addr s =
     (let cacheKey = toLowerCase addr;
          delegate = (case getBatchTokenMetadata now [addr] s of (call, arr, s') \<Rightarrow> (Delegated call, s'))
      in case cache s cacheKey of
           None \<Rightarrow> delegate
         | Some cached \<Rightarrow> if isCacheValid now cached then (Hit (data cached), s) else delegate)"

text \<open>The last line of \<open>getTokenMetadata\<close>, on what the batch call settled to.\<close>

definition getTokenMetadata_resume :: "TokenMetadata list settled \<Rightarrow> TokenMetadata option settled" where
  "getTokenMetadata_resume settledResult =
     (case settledResult of
        Inl e \<Rightarrow> Inl e
      | Inr result \<Rightarrow> Inr (if length result > 0 then Some (result ! 0) else None))"

text \<open>
  \<open>searchTokens\<close> once its rate-limited request has settled (the request, and the
  building of its URL, are inside the \<open>try\<close> block): a rejection is caught.
\<close>

definition searchTokens :: "int \<Rightarrow> TokenMetadata list settled \<Rightarrow> TokenMetadataCache \<Rightarrow>
    TokenMetadata list settled \<times> TokenMetadataCache" where
  "searchTokens now settledRequest s =
     (case settledRequest of
        Inl e \<Rightarrow> (Inr [], s)
      | Inr response \<Rightarrow> (Inr response, fold (cacheToken now) response s))"


text \<open>The cache as the constructor leaves it, and a record with the optional fields absent.\<close>

definition emptyCache :: TokenMetadataCache where
  "emptyCache =
     \<lparr>cache = Map.empty, pendingBatchRequests = Map.empty, batchFetches = [], nextBatch = 0\<rparr>"

definition sampleToken :: "string \<Rightarrow> string \<Rightarrow> TokenMetadata" where
  "sampleToken a sy =
     \<lparr>address = a, symbol = sy, name = sy, decimals = 18, logoUrl = None, isVerified = True,
      isTestnet = None, coingeckoId = None, marketCap = None, price = None,
      priceChange24h = None, volume24h = None, description = None\<rparr>"

text \<open>The record a lookup of the address is served from the cache at \<open>now\<close>, if any.\<close>

definition cachedData :: "int \<Rightarrow> (string \<rightharpoonup> CacheEntry) \<Rightarrow> string \<Rightarrow> TokenMetadata option" where
  "cachedData now c a =
     (case c (toLowerCase a) of
        None \<Rightarrow> None
      | Some cached \<Rightarrow> if isCacheValid now cached then Some (data cached) else None)"

text \<open>A cache that holds a valid entry for \<open>0xa\<close>, written at time 0.\<close>

definition warmCache :: TokenMetadataCache where
  "warmCache = cacheToken 0 (sampleToken ''0xa'' ''A'') emptyCache"

section \<open>Properties of the rate limiter\<close>

text \<open>
  C8. Without a credential the request cap is 30, with one it is 100; the configuration
  with a credential has the strictly larger cap and the strictly shorter cooldown.
\<close>

theorem credential_profile:
  assumes "hasApiKey k" and "\<not> hasApiKey n"
  shows "maxRequests (config n) = 30 \<and> maxRequests (config k) = 100
       \<and> maxRequests (config n) < maxRequests (config k)
       \<and> cooldownMs (config k) < cooldownMs (config n)"
  using assms by (simp add: config_def getMaxRequests_def getCooldownMs_def)

theorem credential_profile_witness:
  "hasApiKey (Some ''CG-key'') \<and> \<not> hasApiKey None
   \<and> maxRequests (config None) = 30 \<and> maxRequests (config (Some ''CG-key'')) = 100
   \<and> maxRequests (config None) < maxRequests (config (Some ''CG-key''))
   \<and> cooldownMs (config (Some ''CG-key'')) < cooldownMs (config None)"
proof -
  have k: "hasApiKey (Some ''CG-key'')" and n: "\<not> hasApiKey None"
    by (simp_all add: hasApiKey_def)
  from credential_profile [OF k n] k n show ?thesis by simp
qed

lemma run_append:
  "run cfg (xs @ ys) w = (case run cfg xs w of None \<Rightarrow> None | Some w' \<Rightarrow> run cfg ys w')"
  by (induction xs arbitrary: w) (auto split: option.splits)

lemma makeRequest_pending:
  assumes "pendingRequests w (generateRequestKey url options) = Some pendingRequest"
  shows "makeRequest cfg caller url options w
           = w\<lparr>handed := handed w @ [(caller, PendingRequest.promise pendingRequest)]\<rparr>"
  using assms by (simp add: makeRequest_def)

lemma makeRequest_suspended:
  assumes "pendingRequests w (generateRequestKey url options) = None"
    and "\<not> fst (canMakeRequest cfg w)"
  shows "makeRequest cfg caller url options w
           = (snd (canMakeRequest cfg w))
               \<lparr>timers := timers (snd (canMakeRequest cfg w)) @
                   [\<lparr>timer_id = nextTimer w, due = clock w + cooldownMs cfg,
                     action = Resume caller url options\<rparr>],
                nextTimer := Suc (nextTimer w)\<rparr>"
  using assms
  by (auto simp: makeRequest_def setTimeout_def canMakeRequest_def cleanupRequestHistory_def Let_def
           split: prod.splits bool.splits)

lemma proceed_history:
  "requestHistory (makeRequest_proceed cfg caller url options w) = requestHistory w @ [clock w]"
  by (simp add: makeRequest_proceed_def executeRequest_def recordRequest_def setTimeout_def
                clearTimeout_def Let_def split: option.splits prod.splits)

lemma proceed_clock:
  "clock (makeRequest_proceed cfg caller url options w) = clock w"
  by (simp add: makeRequest_proceed_def executeRequest_def recordRequest_def setTimeout_def
                clearTimeout_def Let_def split: option.splits prod.splits)

lemma proceed_fetches:
  "fetches (makeRequest_proceed cfg caller url options w) = fetches w @ [(nextPromise w, url, options)]"
  by (simp add: makeRequest_proceed_def executeRequest_def recordRequest_def setTimeout_def
                clearTimeout_def Let_def split: option.splits prod.splits)

lemma proceed_nextTimer:
  "nextTimer (makeRequest_proceed cfg caller url options w) = Suc (nextTimer w)"
  by (simp add: makeRequest_proceed_def executeRequest_def recordRequest_def setTimeout_def
                clearTimeout_def Let_def split: option.splits prod.splits)

lemma proceed_cooldownTimeout:
  "cooldownTimeout (makeRequest_proceed cfg caller url options w) = Some (nextTimer w)"
  by (simp add: makeRequest_proceed_def executeRequest_def recordRequest_def setTimeout_def
                clearTimeout_def Let_def split: option.splits prod.splits)

lemma proceed_timers:
  "timers (makeRequest_proceed cfg caller url options w)
     = filter (\<lambda>t. Some (timer_id t) \<noteq> cooldownTimeout w) (timers w) @
       [\<lparr>timer_id = nextTimer w, due = clock w + cooldownMs cfg, action = ClearCooldown\<rparr>]"
  by (auto simp: makeRequest_proceed_def executeRequest_def recordRequest_def setTimeout_def
                clearTimeout_def Let_def split: option.splits prod.splits)


lemma call_suspended_in_cooldown:
  assumes "isCooldown w" and "pendingRequests w (generateRequestKey url options) = None"
  shows "step cfg (Call caller url options) w
           = Some (w\<lparr>timers := timers w @
                      [\<lparr>timer_id = nextTimer w, due = clock w + cooldownMs cfg,
                        action = Resume caller url options\<rparr>],
                    nextTimer := Suc (nextTimer w)\<rparr>)"
  using assms by (simp add: makeRequest_def canMakeRequest_def setTimeout_def)

text \<open>Callers that arrive during a cooldown, with no pending request under their keys.\<close>

lemma run_suspended_calls:
  assumes "isCooldown w"
    and "\<forall>(c, u)\<in>set cs. pendingRequests w (generateRequestKey u None) = None"
  shows "run cfg (map (\<lambda>(c, u). Call c u None) cs) w
           = Some (w\<lparr>timers := timers w @
                      map (\<lambda>(j, (c, u)). \<lparr>timer_id = j, due = clock w + cooldownMs cfg,
                                            action = Resume c u None\<rparr>)
                          (zip [nextTimer w ..< nextTimer w + length cs] cs),
                    nextTimer := nextTimer w + length cs\<rparr>)"
  using assms
proof (induction cs arbitrary: w)
  case Nil
  then show ?case by simp
next
  case (Cons a cs)
  obtain c u where a: "a = (c, u)" by (cases a)
  let ?w1 = "w\<lparr>timers := timers w @
                      [\<lparr>timer_id = nextTimer w, due = clock w + cooldownMs cfg,
                        action = Resume c u None\<rparr>],
                    nextTimer := Suc (nextTimer w)\<rparr>"
  have s: "step cfg (Call c u None) w = Some ?w1"
    using Cons.prems a by (intro call_suspended_in_cooldown) auto
  have "isCooldown ?w1" using Cons.prems by simp
  moreover have "\<forall>(c, u)\<in>set cs. pendingRequests ?w1 (generateRequestKey u None) = None"
    using Cons.prems by auto
  ultimately have r: "run cfg (map (\<lambda>(c, u). Call c u None) cs) ?w1
           = Some (?w1\<lparr>timers := timers ?w1 @
                      map (\<lambda>(j, (c, u)). \<lparr>timer_id = j, due = clock ?w1 + cooldownMs cfg,
                                            action = Resume c u None\<rparr>)
                          (zip [nextTimer ?w1 ..< nextTimer ?w1 + length cs] cs),
                    nextTimer := nextTimer ?w1 + length cs\<rparr>)"
    by (rule Cons.IH)
  have u: "[nextTimer w ..< nextTimer w + length (a # cs)]
             = nextTimer w # [Suc (nextTimer w) ..< Suc (nextTimer w) + length cs]"
    using upt_conv_Cons [of "nextTimer w" "nextTimer w + Suc (length cs)"] by simp
  show ?case
    unfolding u using s r a by simp
qed

text \<open>Firing the timers of suspended callers: each records a request, whatever the window holds.\<close>

lemma run_fire_resumes:
  assumes "distinct ids"
    and "\<forall>i\<in>set ids. i < nextTimer w \<and> cooldownTimeout w \<noteq> Some i"
    and "\<forall>i\<in>set ids. \<exists>t ts. filter (\<lambda>t. timer_id t = i) (timers w) = t # ts
            \<and> action t \<noteq> ClearCooldown \<and> due t \<le> clock w"
  shows "\<exists>w'. run cfg (map Fire ids) w = Some w'
           \<and> requestHistory w' = requestHistory w @ replicate (length ids) (clock w)
           \<and> clock w' = clock w"
  using assms
proof (induction ids arbitrary: w)
  case Nil
  then show ?case by simp
next
  case (Cons i ids)
  from Cons.prems(3) obtain t ts where t: "filter (\<lambda>t. timer_id t = i) (timers w) = t # ts"
    and a: "action t \<noteq> ClearCooldown" and d: "due t \<le> clock w"
    by auto
  from a obtain c u opt where r: "action t = Resume c u opt" by (cases "action t") auto
  from t have ti: "timer_id t = i"
    by (metis (mono_tags, lifting) filter_eq_ConsD)
  let ?w0 = "w\<lparr>timers := filter (\<lambda>u. timer_id u \<noteq> i) (timers w)\<rparr>"
  let ?w1 = "makeRequest_proceed cfg c u opt ?w0"
  have s: "step cfg (Fire i) w = Some ?w1"
    using t d r ti by (simp add: fire_def)
  have h1: "requestHistory ?w1 = requestHistory w @ [clock w]" by (simp add: proceed_history)
  have c1: "clock ?w1 = clock w" by (simp add: proceed_clock)
  have n1: "nextTimer ?w1 = Suc (nextTimer w)" by (simp add: proceed_nextTimer)
  have k1: "cooldownTimeout ?w1 = Some (nextTimer w)" by (simp add: proceed_cooldownTimeout)
  have f1: "filter (\<lambda>t. timer_id t = j) (timers ?w1) = filter (\<lambda>t. timer_id t = j) (timers w)"
    if "j \<in> set ids" for j
  proof -
    from that Cons.prems have "j \<noteq> i" "j < nextTimer w" "cooldownTimeout w \<noteq> Some j" by auto
    then show ?thesis
      by (auto simp: proceed_timers intro: filter_cong)
  qed
  have "distinct ids" using Cons.prems by simp
  moreover have "\<forall>j\<in>set ids. j < nextTimer ?w1 \<and> cooldownTimeout ?w1 \<noteq> Some j"
    using Cons.prems(2) n1 k1 by auto
  moreover have "\<forall>j\<in>set ids. \<exists>t ts. filter (\<lambda>t. timer_id t = j) (timers ?w1) = t # ts
            \<and> action t \<noteq> ClearCooldown \<and> due t \<le> clock ?w1"
    using Cons.prems(3) f1 c1 by auto
  ultimately obtain w' where "run cfg (map Fire ids) ?w1 = Some w'"
    and "requestHistory w' = requestHistory ?w1 @ replicate (length ids) (clock ?w1)"
    and "clock w' = clock ?w1"
    using Cons.IH [of ?w1] by blast
  then show ?case
    using s h1 c1 by (simp add: replicate_app_Cons_same)
qed


lemma resume_timer_found:
  assumes "length js = length cs" and "i \<in> set js"
  shows "\<exists>t ts. filter (\<lambda>t. timer_id t = i)
                  (map (\<lambda>(j, (c, u)). \<lparr>timer_id = j, due = d, action = Resume c u None\<rparr>) (zip js cs))
                = t # ts \<and> action t \<noteq> ClearCooldown \<and> due t = d"
proof -
  let ?F = "\<lambda>(j, (c, u)). \<lparr>timer_id = j, due = d, action = Resume c u None\<rparr>"
  let ?xs = "filter (\<lambda>t. timer_id t = i) (map ?F (zip js cs))"
  from assms obtain k where k: "k < length js" "js ! k = i"
    by (auto simp: in_set_conv_nth)
  with assms(1) have "(i, cs ! k) \<in> set (zip js cs)"
    by (auto simp: set_zip)
  then have "\<exists>x\<in>set (zip js cs). timer_id (?F x) = i"
    by (intro bexI [of _ "(i, cs ! k)"]) (auto split: prod.splits)
  then have "?xs \<noteq> []"
    by (auto simp: filter_empty_conv)
  then obtain t ts where e: "?xs = t # ts" by (cases ?xs) auto
  then have "t \<in> set ?xs" by simp
  then have "t \<in> set (map ?F (zip js cs))" by simp
  then have "action t \<noteq> ClearCooldown \<and> due t = d" by auto
  with e show ?thesis by blast
qed

lemma first_call:
  "makeRequest (config None) 0 ''/first'' None initial
     = \<lparr>pendingRequests = [''GET:/first:'' \<mapsto> \<lparr>PendingRequest.promise = 0, PendingRequest.timestamp = 0\<rparr>],
        requestHistory = [0], isCooldown = True, cooldownTimeout = Some 0, clock = 0,
        timers = [\<lparr>timer_id = 0, due = 2000, action = ClearCooldown\<rparr>], nextTimer = 1,
        fetches = [(0, ''/first'', None)], nextPromise = 1,
        awaiting = [(0, 0, ''GET:/first:'')], handed = [(0, 0)], settledAs = Map.empty\<rparr>"
  by (simp add: makeRequest_def generateRequestKey_def initial_def canMakeRequest_def
                cleanupRequestHistory_def config_def getMaxRequests_def getCooldownMs_def
                hasApiKey_def makeRequest_proceed_def executeRequest_def recordRequest_def
                setTimeout_def Let_def)

lemma burst_history:
  "\<exists>w. run (config None) (burst n) initial = Some (w :: string limiter)
       \<and> requestHistory w = 0 # replicate n 2000 \<and> clock w = 2000"
proof -
  let ?cfg = "config None"
  let ?F = "\<lambda>(j, (c, u)). \<lparr>timer_id = j, due = 2000, action = Resume c u None\<rparr>"
  let ?cc = "\<lparr>timer_id = 0, due = 2000, action = ClearCooldown\<rparr>"
  let ?wa = "makeRequest ?cfg 0 ''/first'' None (initial :: string limiter)"
  let ?rs = "map ?F (zip [1 ..< Suc n] (waiting n))"
  let ?wb = "?wa\<lparr>timers := ?cc # ?rs, nextTimer := Suc n\<rparr>"
  let ?wc = "?wb\<lparr>clock := 2000\<rparr>"
  let ?wd = "?wc\<lparr>timers := filter (\<lambda>u. timer_id u \<noteq> 0) (?cc # ?rs), isCooldown := False\<rparr>"
  have len: "length (waiting n) = n" and ids: "map fst (waiting n) = [1..<Suc n]"
    by (simp_all add: waiting_def comp_def)
  have cd: "cooldownMs ?cfg = 2000"
    by (simp add: config_def getCooldownMs_def hasApiKey_def)
  have "\<forall>(c, u)\<in>set (waiting n). pendingRequests ?wa (generateRequestKey u None) = None"
    by (auto simp: first_call waiting_def generateRequestKey_def)
  then have b: "run ?cfg (map (\<lambda>(c, u). Call c u None) (waiting n)) ?wa = Some ?wb"
    using run_suspended_calls [of ?wa "waiting n" ?cfg]
    by (simp add: first_call len cd)
  have c: "step ?cfg (Tick 2000) ?wb = Some ?wc"
    by (simp add: first_call)
  have d: "step ?cfg (Fire 0) ?wc = Some ?wd"
    by (simp add: first_call fire_def)
  have "distinct [1..<Suc n]" by simp
  moreover have "\<forall>i\<in>set [1..<Suc n]. i < nextTimer ?wd \<and> cooldownTimeout ?wd \<noteq> Some i"
    by (auto simp: first_call)
  moreover have "\<forall>i\<in>set [1..<Suc n]. \<exists>t ts. filter (\<lambda>t. timer_id t = i) (timers ?wd) = t # ts
            \<and> action t \<noteq> ClearCooldown \<and> due t \<le> clock ?wd"
  proof
    fix i assume i: "i \<in> set [1..<Suc n]"
    then have "i \<noteq> 0" by auto
    then have eq: "filter (\<lambda>t. timer_id t = i) (timers ?wd) = filter (\<lambda>t. timer_id t = i) ?rs"
      by (auto intro: filter_cong)
    have "length [1..<Suc n] = length (waiting n)" by (simp add: len)
    from resume_timer_found [OF this i, of 2000]
    obtain t ts where f: "filter (\<lambda>t. timer_id t = i) ?rs = t # ts"
      and a: "action t \<noteq> ClearCooldown" and du: "due t = 2000"
      by blast
    have "filter (\<lambda>t. timer_id t = i) (timers ?wd) = t # ts"
      using eq f by (rule trans)
    moreover have "due t \<le> clock ?wd" by (simp add: du)
    ultimately show "\<exists>t ts. filter (\<lambda>t. timer_id t = i) (timers ?wd) = t # ts
            \<and> action t \<noteq> ClearCooldown \<and> due t \<le> clock ?wd"
      using a by blast
  qed
  ultimately obtain w' where e: "run ?cfg (map Fire [1..<Suc n]) ?wd = Some w'"
    and h: "requestHistory w' = requestHistory ?wd @ replicate (length [1..<Suc n]) (clock ?wd)"
    and k: "clock w' = clock ?wd"
    using run_fire_resumes [of "[1..<Suc n]" ?wd ?cfg] by blast
  have "run ?cfg (burst n) initial = Some w'"
    using b c d e by (simp add: burst_def run_append ids)
  moreover have "requestHistory w' = 0 # replicate n 2000"
    using h by (simp add: first_call)
  moreover have "clock w' = 2000" using k by simp
  ultimately show ?thesis by blast
qed

text \<open>
  C1. The claim fails: without a credential (cap 30), one caller is admitted at time 0 and
  thirty more, each with its own URL, arrive during the cooldown. All thirty are suspended
  for 2000 ms and then proceed without another look at the window: at time 2000 the window
  holds 31 timestamps.
\<close>

theorem window_overrun_counterexample:
  "map_option (inWindow (config None)) (run (config None) (burst 30) initial) = Some 31
   \<and> maxRequests (config None) = 30"
proof -
  obtain w :: "string limiter" where "run (config None) (burst 30) initial = Some w"
    and "requestHistory w = 0 # replicate 30 2000" and "clock w = 2000"
    using burst_history [of 30] by blast
  then show ?thesis
    by (simp add: inWindow_def config_def getMaxRequests_def hasApiKey_def)
qed


lemma inWindow_same:
  assumes "requestHistory w' = requestHistory w" and "clock w' = clock w"
  shows "inWindow cfg w' = inWindow cfg w"
  using assms by (simp add: inWindow_def)

lemma length_filter_mono:
  assumes "\<And>x. P x \<Longrightarrow> Q x"
  shows "length (filter P xs) \<le> length (filter Q xs)"
  using assms by (induction xs) auto

lemma admitted_window:
  assumes "canMakeRequest cfg w = (True, w1)"
  shows "inWindow cfg (makeRequest_proceed cfg caller url options w1) \<le> maxRequests cfg"
proof -
  from assms have h: "requestHistory w1 = filter (\<lambda>t. t > clock w - windowMs cfg) (requestHistory w)"
    and c: "clock w1 = clock w" and l: "length (requestHistory w1) < maxRequests cfg"
    by (auto simp: canMakeRequest_def cleanupRequestHistory_def Let_def split: if_splits)
  have "inWindow cfg (makeRequest_proceed cfg caller url options w1)
          \<le> length (requestHistory w1 @ [clock w1])"
    unfolding inWindow_def proceed_history proceed_clock by (rule length_filter_le)
  with l show ?thesis by simp
qed

lemma makeRequest_window:
  assumes "inWindow cfg w \<le> maxRequests cfg"
  shows "inWindow cfg (makeRequest cfg caller url options w) \<le> maxRequests cfg"
proof (cases "pendingRequests w (generateRequestKey url options)")
  case (Some pendingRequest)
  then have "inWindow cfg (makeRequest cfg caller url options w) = inWindow cfg w"
    by (intro inWindow_same) (simp_all add: makeRequest_pending)
  with assms show ?thesis by simp
next
  case None
  obtain ok w1 where k: "canMakeRequest cfg w = (ok, w1)" by (cases "canMakeRequest cfg w")
  show ?thesis
  proof (cases ok)
    case True
    with None k show ?thesis
      using admitted_window [of cfg w w1 caller url options] by (simp add: makeRequest_def)
  next
    case False
    from k have c: "clock w1 = clock w"
      by (auto simp: canMakeRequest_def cleanupRequestHistory_def Let_def split: if_splits)
    from k have "requestHistory w1 = requestHistory w
        \<or> requestHistory w1 = filter (\<lambda>t. t > clock w - windowMs cfg) (requestHistory w)"
      by (auto simp: canMakeRequest_def cleanupRequestHistory_def Let_def split: if_splits)
    then have "inWindow cfg w1 = inWindow cfg w"
      using c by (auto simp: inWindow_def)
    moreover have "inWindow cfg (makeRequest cfg caller url options w) = inWindow cfg w1"
      using None k False by (intro inWindow_same) (simp_all add: makeRequest_def setTimeout_def)
    ultimately show ?thesis using assms by simp
  qed
qed

lemma step_window:
  assumes "step cfg e w = Some w'" and "\<not> resumes e w"
    and "inWindow cfg w \<le> maxRequests cfg"
  shows "inWindow cfg w' \<le> maxRequests cfg"
proof (cases e)
  case (Call caller url options)
  with assms show ?thesis using makeRequest_window by auto
next
  case (Tick t)
  with assms(1) have w': "w' = w\<lparr>clock := t\<rparr>" and le: "clock w \<le> t"
    by (auto split: if_splits)
  have "inWindow cfg w' \<le> inWindow cfg w"
    unfolding inWindow_def w' using le by (auto intro!: length_filter_mono)
  with assms(3) show ?thesis by simp
next
  case (Fire tid)
  with assms(1) obtain t ts where t: "filter (\<lambda>t. timer_id t = tid) (timers w) = t # ts"
    and w': "w' = fire cfg t w"
    by (auto split: list.splits if_splits)
  with assms(2) Fire have "action t = ClearCooldown" by (simp add: resumes_def)
  with w' have "inWindow cfg w' = inWindow cfg w"
    by (intro inWindow_same) (simp_all add: fire_def)
  with assms(3) show ?thesis by simp
next
  case (Settle p r)
  with assms(1) have "inWindow cfg w' = inWindow cfg w"
    by (intro inWindow_same) (auto simp: makeRequest_finally_def Let_def split: if_splits)
  with assms(3) show ?thesis by simp
qed

lemma run_window:
  assumes "run cfg es w = Some w'" and "no_resume cfg es w"
    and "inWindow cfg w \<le> maxRequests cfg"
  shows "inWindow cfg w' \<le> maxRequests cfg"
  using assms
proof (induction es arbitrary: w)
  case Nil
  then show ?case by simp
next
  case (Cons e es)
  from Cons.prems(1) obtain w1 where s: "step cfg e w = Some w1" and r: "run cfg es w1 = Some w'"
    by (auto split: option.splits)
  from Cons.prems(2) s have n: "\<not> resumes e w" "no_resume cfg es w1" by auto
  from step_window [OF s n(1) Cons.prems(3)] have "inWindow cfg w1 \<le> maxRequests cfg" .
  with Cons.IH r n(2) show ?case by blast
qed

text \<open>
  C1, as amended. For every sequence of events from the initial state in which no
  suspended caller has resumed, the number of recorded timestamps newer than
  \<open>now - windowMs\<close> is at most \<open>maxRequests\<close>. A caller that finds no pending request under
  its key and may not make a request is suspended on a timer due exactly \<open>cooldownMs\<close>
  later; when the timer fires the caller proceeds without the window being checked again:
  its timestamp is recorded and its network call issued whatever the window holds.
\<close>

theorem window_bound_without_resumed_callers:
  "(run cfg es initial = Some w \<and> no_resume cfg es initial \<longrightarrow> inWindow cfg w \<le> maxRequests cfg)
   \<and> (pendingRequests w0 (generateRequestKey url options) = None \<and> \<not> fst (canMakeRequest cfg w0) \<longrightarrow>
        makeRequest cfg caller url options w0
          = (snd (canMakeRequest cfg w0))
              \<lparr>timers := timers (snd (canMakeRequest cfg w0)) @
                  [\<lparr>timer_id = nextTimer w0, due = clock w0 + cooldownMs cfg,
                    action = Resume caller url options\<rparr>],
               nextTimer := Suc (nextTimer w0)\<rparr>)
   \<and> fire cfg \<lparr>timer_id = tid, due = d, action = Resume caller url options\<rparr> w1
        = makeRequest_proceed cfg caller url options
            (w1\<lparr>timers := filter (\<lambda>u. timer_id u \<noteq> tid) (timers w1)\<rparr>)
   \<and> requestHistory (makeRequest_proceed cfg caller url options w2) = requestHistory w2 @ [clock w2]
   \<and> fetches (makeRequest_proceed cfg caller url options w2)
        = fetches w2 @ [(nextPromise w2, url, options)]"
proof -
  have "inWindow cfg (initial :: 'a limiter) \<le> maxRequests cfg"
    by (simp add: inWindow_def initial_def)
  then have "run cfg es initial = Some w \<and> no_resume cfg es initial \<longrightarrow> inWindow cfg w \<le> maxRequests cfg"
    using run_window [of cfg es initial w] by blast
  moreover have "fire cfg \<lparr>timer_id = tid, due = d, action = Resume caller url options\<rparr> w1
        = makeRequest_proceed cfg caller url options
            (w1\<lparr>timers := filter (\<lambda>u. timer_id u \<noteq> tid) (timers w1)\<rparr>)"
    by (simp add: fire_def)
  ultimately show ?thesis
    using makeRequest_suspended [of w0 url options cfg caller]
    by (simp add: proceed_history proceed_fetches)
qed


lemmas limiter_defs = config_def getMaxRequests_def getCooldownMs_def hasApiKey_def initial_def
  makeRequest_def generateRequestKey_def canMakeRequest_def cleanupRequestHistory_def
  setTimeout_def makeRequest_proceed_def executeRequest_def recordRequest_def clearTimeout_def
  fire_def makeRequest_finally_def Let_def

lemma calm_runs:
  "run (config None) calm initial \<noteq> None" "no_resume (config None) calm initial"
  by (simp_all add: calm_def limiter_defs resumes_def)

theorem window_bound_without_resumed_callers_witness:
  "run (config None) calm initial \<noteq> None \<and> no_resume (config None) calm initial
   \<and> inWindow (config None) (the (run (config None) calm initial)) \<le> maxRequests (config None)
   \<and> timers (makeRequest (config None) 1 ''/second'' None
               (makeRequest (config None) 0 ''/first'' None (initial :: string limiter)))
       = [\<lparr>timer_id = 0, due = 2000, action = ClearCooldown\<rparr>,
          \<lparr>timer_id = 1, due = 2000, action = Resume 1 ''/second'' None\<rparr>]"
proof -
  let ?cfg = "config None"
  let ?w0 = "makeRequest ?cfg 0 ''/first'' None (initial :: string limiter)"
  have r: "run ?cfg calm initial = Some (the (run ?cfg calm initial))"
    using calm_runs(1) by simp
  have p: "pendingRequests ?w0 (generateRequestKey ''/second'' None) = None"
    by (simp add: first_call generateRequestKey_def)
  have c: "\<not> fst (canMakeRequest ?cfg ?w0)" and s: "snd (canMakeRequest ?cfg ?w0) = ?w0"
    by (simp_all add: first_call canMakeRequest_def)
  have fc: "timers ?w0 = [\<lparr>timer_id = 0, due = 2000, action = ClearCooldown\<rparr>]"
    "nextTimer ?w0 = 1" "clock ?w0 = 0"
    by (simp_all add: first_call)
  have cd: "cooldownMs ?cfg = 2000"
    by (simp add: config_def getCooldownMs_def hasApiKey_def)
  note t = window_bound_without_resumed_callers
             [of ?cfg calm "the (run ?cfg calm initial)" ?w0 "''/second''" None 1]
  from t r calm_runs(2)
  have "inWindow ?cfg (the (run ?cfg calm initial)) \<le> maxRequests ?cfg" by blast
  moreover from t p c
  have "makeRequest ?cfg 1 ''/second'' None ?w0
          = (snd (canMakeRequest ?cfg ?w0))
              \<lparr>timers := timers (snd (canMakeRequest ?cfg ?w0)) @
                  [\<lparr>timer_id = nextTimer ?w0, due = clock ?w0 + cooldownMs ?cfg,
                    action = Resume 1 ''/second'' None\<rparr>],
               nextTimer := Suc (nextTimer ?w0)\<rparr>"
    by blast
  then have "timers (makeRequest ?cfg 1 ''/second'' None ?w0)
       = [\<lparr>timer_id = 0, due = 2000, action = ClearCooldown\<rparr>,
          \<lparr>timer_id = 1, due = 2000, action = Resume 1 ''/second'' None\<rparr>]"
    unfolding s by (simp add: fc cd)
  ultimately show ?thesis using calm_runs by blast
qed

text \<open>
  C2. Two callers issue the same request (\<open>GET /b\<close>, no body) at time 0, during the
  cooldown of an earlier request. Neither finds a pending request, both are suspended, and
  both proceed at time 2000: two network calls are made for the one signature, each
  caller awaits a promise of its own, and the two may settle to different values.
\<close>

theorem duplicate_calls_fetch_twice:
  "map_option (\<lambda>w. (callsFor ''GET:/b:'' w, handed w, settledAs w 1, settledAs w 2))
     (run (config None) duplicateCalls initial)
   = Some ([1, 2], [(0, 0), (1, 1), (2, 2)], Some (Inr ''first''), Some (Inr ''second''))"
  by (simp add: duplicateCalls_def limiter_defs callsFor_def)

section \<open>Properties of the metadata cache\<close>


lemma cache_cacheToken:
  "cache (cacheToken now t s) k =
     (if k = toLowerCase (address t)
      then Some \<lparr>data = t, CacheEntry.timestamp = now, expiresAt = now + CACHE_DURATION\<rparr>
      else cache s k)"
  by (simp add: cacheToken_def Let_def)





lemma fold_cacheToken_entries:
  "\<forall>t\<in>set ts. \<exists>u\<in>set ts. toLowerCase (address u) = toLowerCase (address t) \<and>
      cache (fold (cacheToken now) ts s) (toLowerCase (address t)) =
        Some \<lparr>data = u, CacheEntry.timestamp = now, expiresAt = now + CACHE_DURATION\<rparr>"
proof (induction ts rule: rev_induct)
  case Nil
  then show ?case by simp
next
  case (snoc x xs)
  show ?case
  proof
    fix t assume t: "t \<in> set (xs @ [x])"
    show "\<exists>u\<in>set (xs @ [x]). toLowerCase (address u) = toLowerCase (address t) \<and>
      cache (fold (cacheToken now) (xs @ [x]) s) (toLowerCase (address t)) =
        Some \<lparr>data = u, CacheEntry.timestamp = now, expiresAt = now + CACHE_DURATION\<rparr>"
    proof (cases "toLowerCase (address t) = toLowerCase (address x)")
      case True
      then show ?thesis by (auto simp: cache_cacheToken)
    next
      case False
      with t have "t \<in> set xs" by auto
      with snoc.IH obtain u where "u \<in> set xs"
        and "toLowerCase (address u) = toLowerCase (address t)"
        and "cache (fold (cacheToken now) xs s) (toLowerCase (address t)) =
          Some \<lparr>data = u, CacheEntry.timestamp = now, expiresAt = now + CACHE_DURATION\<rparr>"
        by blast
      with False show ?thesis by (auto simp: cache_cacheToken)
    qed
  qed
qed

text \<open>
  C10. \<open>searchTokens\<close> never rejects: when the rate-limited request throws, it resolves
  with the empty list and leaves the cache as it was; on success it resolves with the
  provider's array, and every record of the array then has an entry under its lower-cased
  address, written at \<open>now\<close> with expiry \<open>now + CACHE_DURATION\<close> (the entry of the last record
  with that lower-cased address).
\<close>

theorem searchTokens_never_rejects:
  "(\<exists>results. fst (searchTokens now r s) = Inr results)
   \<and> searchTokens now (Inl e) s = (Inr [], s)
   \<and> fst (searchTokens now (Inr response) s) = Inr response
   \<and> (\<forall>t\<in>set response. \<exists>u\<in>set response.
         toLowerCase (address u) = toLowerCase (address t) \<and>
         cache (snd (searchTokens now (Inr response) s)) (toLowerCase (address t)) =
           Some \<lparr>data = u, CacheEntry.timestamp = now, expiresAt = now + CACHE_DURATION\<rparr>)"
proof -
  have "\<exists>results. fst (searchTokens now r s) = Inr results"
    by (cases r) (simp_all add: searchTokens_def)
  moreover have "searchTokens now (Inl e) s = (Inr [], s)"
    by (simp add: searchTokens_def)
  moreover have "fst (searchTokens now (Inr response) s) = Inr response"
    by (simp add: searchTokens_def)
  moreover have "snd (searchTokens now (Inr response) s) = fold (cacheToken now) response s"
    by (simp add: searchTokens_def)
  ultimately show ?thesis
    using fold_cacheToken_entries [of response now s] by simp
qed

theorem searchTokens_never_rejects_witness:
  "fst (searchTokens 7 (Inl (Error ''API request failed: 500'')) emptyCache) = Inr []
   \<and> fst (searchTokens 7 (Inr [sampleToken ''0xA'' ''A'']) emptyCache) = Inr [sampleToken ''0xA'' ''A'']
   \<and> cache (snd (searchTokens 7 (Inr [sampleToken ''0xA'' ''A'']) emptyCache)) ''0xa''
       = Some \<lparr>data = sampleToken ''0xA'' ''A'', CacheEntry.timestamp = 7, expiresAt = 600007\<rparr>"
proof -
  have a: "toLowerCase (address (sampleToken ''0xA'' ''A'')) = ''0xa''"
    by (simp add: sampleToken_def toLowerCase_def lowerChar_def)
  have d: "CACHE_DURATION = 600000" by (simp add: CACHE_DURATION_def)
  from searchTokens_never_rejects
         [of 7 "Inl (Error ''API request failed: 500'')" emptyCache
             "Error ''API request failed: 500''" "[sampleToken ''0xA'' ''A'']"] a d
  show ?thesis by simp
qed

text \<open>
  C9. For a non-empty list, \<open>getBatchTokenMetadata\<close> leaves the caller's array sorted: the
  array after the call is a sorted permutation of the array before it.
\<close>

theorem batch_sorts_callers_array:
  assumes "addrs \<noteq> []"
  shows "fst (snd (getBatchTokenMetadata now addrs s)) = sort addrs
       \<and> sorted (fst (snd (getBatchTokenMetadata now addrs s)))
       \<and> mset (fst (snd (getBatchTokenMetadata now addrs s))) = mset addrs"
proof -
  from assms have "fst (snd (getBatchTokenMetadata now addrs s)) = sort addrs"
    by (simp add: getBatchTokenMetadata_def generateBatchKey_def Let_def
             split: option.splits prod.splits)
  then show ?thesis by simp
qed

theorem batch_sorts_callers_array_witness:
  "[''0xb'', ''0xa'', ''0xB''] \<noteq> []
   \<and> fst (snd (getBatchTokenMetadata 0 [''0xb'', ''0xa'', ''0xB''] emptyCache)) = [''0xB'', ''0xa'', ''0xb'']"
proof -
  have n: "[''0xb'', ''0xa'', ''0xB''] \<noteq> []" by simp
  have "sort [''0xb'', ''0xa'', ''0xB''] = [''0xB'', ''0xa'', ''0xb'']" by simp
  with batch_sorts_callers_array [OF n, of 0 emptyCache] show ?thesis by simp
qed







lemmas eval_defs = warmCache_def emptyCache_def sampleToken_def cacheToken_def
  getBatchTokenMetadata_def generateBatchKey_def fetchBatchFromAPI_def toLowerCase_def lowerChar_def
  isCacheValid_def CACHE_DURATION_def BATCH_TIMEOUT_def Let_def

lemma mixed_call:
  "fst (getBatchTokenMetadata 1000 [''0xb'', ''0xa''] warmCache)
     = Awaiting 0 ''0xa,0xb'' [sampleToken ''0xa'' ''A'']"
  by (simp add: eval_defs)


text \<open>
  C3. With \<open>0xa\<close> validly cached, two callers ask for \<open>[0xb, 0xa]\<close> one millisecond
  apart. The first issues the fetch and gets the cached record and the fetched one. The
  second joins the pending batch and gets what the fetch returned alone: the cached record
  of \<open>0xa\<close> is missing from its result.
\<close>

theorem joined_batch_drops_cached:
  "fst (getBatchTokenMetadata 1000 [''0xb'', ''0xa''] warmCache)
     = Awaiting 0 ''0xa,0xb'' [sampleToken ''0xa'' ''A'']
   \<and> fst (getBatchTokenMetadata 1001 [''0xb'', ''0xa'']
            (snd (snd (getBatchTokenMetadata 1000 [''0xb'', ''0xa''] warmCache))))
     = Joined 0
   \<and> fetchBatchFromAPI_settle (Inr \<lparr>tokens = Some [sampleToken ''0xb'' ''B'']\<rparr>)
     = Inr [sampleToken ''0xb'' ''B'']
   \<and> fst (getBatchTokenMetadata_result 1500 (Awaiting 0 ''0xa,0xb'' [sampleToken ''0xa'' ''A''])
            (Inr [sampleToken ''0xb'' ''B''])
            (snd (snd (getBatchTokenMetadata 1000 [''0xb'', ''0xa''] warmCache))))
     = Inr [sampleToken ''0xa'' ''A'', sampleToken ''0xb'' ''B'']
   \<and> fst (getBatchTokenMetadata_result 1500 (Joined 0)
            (Inr [sampleToken ''0xb'' ''B''])
            (snd (snd (getBatchTokenMetadata 1000 [''0xb'', ''0xa''] warmCache))))
     = Inr [sampleToken ''0xb'' ''B'']"
proof -
  have "fst (getBatchTokenMetadata 1001 [''0xb'', ''0xa'']
            (snd (snd (getBatchTokenMetadata 1000 [''0xb'', ''0xa''] warmCache))))
     = Joined 0"
    by (simp add: eval_defs)
  moreover have "fetchBatchFromAPI_settle (Inr \<lparr>tokens = Some [sampleToken ''0xb'' ''B'']\<rparr>)
     = Inr [sampleToken ''0xb'' ''B'']"
    by (simp add: fetchBatchFromAPI_settle_def)
  moreover have "fst (getBatchTokenMetadata_result 1500 (Awaiting 0 ''0xa,0xb'' [sampleToken ''0xa'' ''A''])
            (Inr [sampleToken ''0xb'' ''B''])
            (snd (snd (getBatchTokenMetadata 1000 [''0xb'', ''0xa''] warmCache))))
     = Inr [sampleToken ''0xa'' ''A'', sampleToken ''0xb'' ''B'']"
    by (simp add: getBatchTokenMetadata_result_def getBatchTokenMetadata_resume_def Let_def)
  moreover have "fst (getBatchTokenMetadata_result 1500 (Joined 0)
            (Inr [sampleToken ''0xb'' ''B''])
            (snd (snd (getBatchTokenMetadata 1000 [''0xb'', ''0xa''] warmCache))))
     = Inr [sampleToken ''0xb'' ''B'']"
    by (simp add: getBatchTokenMetadata_result_def)
  ultimately show ?thesis
    using mixed_call by blast
qed






text \<open>
  C7. The claim fails: for \<open>0xa\<close>, not cached, the provider answers with the record of
  \<open>0xb\<close> alone. No record of the batch result has the address \<open>0xa\<close>, and yet
  \<open>getTokenMetadata\<close> returns the record of \<open>0xb\<close>, not null.
\<close>

theorem getTokenMetadata_counterexample:
  "fst (getTokenMetadata 1000 ''0xa'' emptyCache) = Delegated (Awaiting 0 ''0xa'' [])
   \<and> fst (getBatchTokenMetadata_result 1500 (Awaiting 0 ''0xa'' [])
            (fetchBatchFromAPI_settle (Inr \<lparr>tokens = Some [sampleToken ''0xb'' ''B'']\<rparr>))
            (snd (getTokenMetadata 1000 ''0xa'' emptyCache)))
     = Inr [sampleToken ''0xb'' ''B'']
   \<and> filter (\<lambda>t. address t = ''0xa'') [sampleToken ''0xb'' ''B''] = []
   \<and> getTokenMetadata_resume (Inr [sampleToken ''0xb'' ''B'']) = Inr (Some (sampleToken ''0xb'' ''B''))"
  by (simp add: getTokenMetadata_def getTokenMetadata_resume_def eval_defs
                getBatchTokenMetadata_result_def getBatchTokenMetadata_resume_def
                fetchBatchFromAPI_settle_def)

text \<open>
  C7, as amended. \<open>getTokenMetadata\<close> returns the record of a valid cache entry as it is;
  otherwise it calls the batch form on the one-element list, returns null exactly when the
  batch result is empty, and otherwise returns the first record of the result, whatever
  its address; a rejection of the batch call is passed on.
\<close>

theorem getTokenMetadata_first_of_batch:
  "(cachedData now (cache s) a = Some d \<longrightarrow> getTokenMetadata now a s = (Hit d, s))
   \<and> (cachedData now (cache s) a = None \<longrightarrow>
        getTokenMetadata now a s =
          (case getBatchTokenMetadata now [a] s of (call, arr, s') \<Rightarrow> (Delegated call, s')))
   \<and> (getTokenMetadata_resume (Inr result) = Inr None \<longleftrightarrow> result = [])
   \<and> (result \<noteq> [] \<longrightarrow> getTokenMetadata_resume (Inr result) = Inr (Some (hd result)))
   \<and> getTokenMetadata_resume (Inl e) = Inl e"
  by (cases result)
     (auto simp: cachedData_def getTokenMetadata_def getTokenMetadata_resume_def Let_def
           split: option.splits if_splits)

theorem getTokenMetadata_first_of_batch_witness:
  "getTokenMetadata 1000 ''0xA'' warmCache = (Hit (sampleToken ''0xa'' ''A''), warmCache)
   \<and> getTokenMetadata 1000 ''0xa'' emptyCache =
        (case getBatchTokenMetadata 1000 [''0xa''] emptyCache of
           (call, arr, s') \<Rightarrow> (Delegated call, s'))
   \<and> getTokenMetadata_resume (Inr [sampleToken ''0xb'' ''B'', sampleToken ''0xa'' ''A''])
        = Inr (Some (sampleToken ''0xb'' ''B''))"
proof -
  have h: "cachedData 1000 (cache warmCache) ''0xA'' = Some (sampleToken ''0xa'' ''A'')"
    by (simp add: cachedData_def eval_defs)
  have m: "cachedData 1000 (cache emptyCache) ''0xa'' = None"
    by (simp add: cachedData_def emptyCache_def)
  have n: "[sampleToken ''0xb'' ''B'', sampleToken ''0xa'' ''A''] \<noteq> []" by simp
  have "getTokenMetadata 1000 ''0xA'' warmCache = (Hit (sampleToken ''0xa'' ''A''), warmCache)"
    using getTokenMetadata_first_of_batch [of 1000 warmCache "''0xA''" "sampleToken ''0xa'' ''A''"] h
    by blast
  moreover have "getTokenMetadata 1000 ''0xa'' emptyCache =
        (case getBatchTokenMetadata 1000 [''0xa''] emptyCache of
           (call, arr, s') \<Rightarrow> (Delegated call, s'))"
    using getTokenMetadata_first_of_batch [of 1000 emptyCache "''0xa''"] m
    by blast
  moreover have "getTokenMetadata_resume (Inr [sampleToken ''0xb'' ''B'', sampleToken ''0xa'' ''A''])
        = Inr (Some (hd [sampleToken ''0xb'' ''B'', sampleToken ''0xa'' ''A'']))"
    using getTokenMetadata_first_of_batch
            [where result = "[sampleToken ''0xb'' ''B'', sampleToken ''0xa'' ''A'']"] n
    by blast
  ultimately show ?thesis by simp
qed

end
